theory Spec2Isabelle
  imports Complex_Main "HOL-Library.Sublist" "HOL-Library.Product_Lexorder"
    "HOL-Library.Multiset" "HOL-Library.Log_Nat"
begin

section \<open>Python's numbers\<close>

text \<open>
  A finite \<open>Decimal\<close> or \<open>float\<close> is modelled by its exact value, a \<open>rat\<close>, and every arithmetic
  operation by the exact operation followed by the rounding the source applies to its
  result: to 28 significant decimal digits for \<open>Decimal\<close> (the default context, which the
  source never changes), to 53 significant binary digits for \<open>float\<close> (binary64), both to
  nearest with ties to even. Comparisons are exact in both types. The exponent ranges are
  not modelled: a \<open>Decimal\<close> result is taken to lie between \<open>1E-999999\<close> and \<open>1E+999999\<close> in
  magnitude (beyond that range the source signals \<open>Overflow\<close> or returns a subnormal), and
  no \<open>float\<close> computed here leaves the normal range of binary64. Infinities and NaNs are not
  amounts.
\<close>

text \<open>The exponent \<open>e\<close> with \<open>b ^ e \<le> |x| < b ^ (e + 1)\<close>, for \<open>x\<close> other than 0.\<close>

definition adjusted :: "nat \<Rightarrow> rat \<Rightarrow> int" where
  "adjusted b x =
     (if 1 \<le> \<bar>x\<bar> then int (floorlog b (nat \<lfloor>\<bar>x\<bar>\<rfloor>)) - 1
      else - int (floorlog b (nat (\<lceil>1 / \<bar>x\<bar>\<rceil> - 1))))"

definition round_half_even :: "rat \<Rightarrow> int" where
  "round_half_even y =
     (let f = \<lfloor>y\<rfloor>; r = y - of_int f
      in if r < 1 / 2 then f else if 1 / 2 < r then f + 1 else if even f then f else f + 1)"

text \<open>Rounding to \<open>n\<close> significant digits in base \<open>b\<close>.\<close>

definition round_sig :: "nat \<Rightarrow> nat \<Rightarrow> rat \<Rightarrow> rat" where
  "round_sig b n x =
     (if x = 0 then 0
      else let e = adjusted b x - (int n - 1)
           in sgn x * of_int (round_half_even (\<bar>x\<bar> / power_int (of_nat b) e))
                * power_int (of_nat b) e)"

text \<open>The rounding of the decimal context and of binary64.\<close>

definition dec :: "rat \<Rightarrow> rat" where
  "dec x = round_sig 10 28 x"

definition fl :: "rat \<Rightarrow> rat" where
  "fl x = round_sig 2 53 x"

text \<open>\<open>Decimal\<close> subtraction, multiplication and \<open>abs\<close>.\<close>

definition dsub :: "rat \<Rightarrow> rat \<Rightarrow> rat" where
  "dsub a b = dec (a - b)"

definition dmul :: "rat \<Rightarrow> rat \<Rightarrow> rat" where
  "dmul a b = dec (a * b)"

definition dabs :: "rat \<Rightarrow> rat" where
  "dabs a = dec \<bar>a\<bar>"

text \<open>\<open>float\<close> addition, subtraction and multiplication.\<close>

definition fadd :: "rat \<Rightarrow> rat \<Rightarrow> rat" where
  "fadd a b = fl (a + b)"

definition fsub :: "rat \<Rightarrow> rat \<Rightarrow> rat" where
  "fsub a b = fl (a - b)"

definition fmul :: "rat \<Rightarrow> rat \<Rightarrow> rat" where
  "fmul a b = fl (a * b)"

text \<open>A value that \<open>Decimal\<close> arithmetic returns unrounded: it has at most \<open>k\<close> decimal places
  and fewer than 29 digits at that scale.\<close>

definition fits :: "nat \<Rightarrow> rat \<Rightarrow> bool" where
  "fits k x \<longleftrightarrow> x * 10 ^ k = of_int \<lfloor>x * 10 ^ k\<rfloor> \<and> \<bar>x\<bar> * 10 ^ k < 10 ^ 28"

section \<open>Bank reconciliation (bank/reconciliation.py)\<close>

text \<open>
  Conventions of the embedding.
  \<^item> A \<open>datetime.date\<close> is its proleptic ordinal, an \<open>int\<close>; \<open>(a - b).days\<close> is \<open>a - b\<close>.
  \<^item> An amount of the reconciliation module is the value of its \<open>Decimal\<close>: that module only
    compares, subtracts, multiplies and takes absolute values of amounts.
  \<^item> A confidence is the value of its \<open>float\<close>; a literal such as \<open>0.9\<close> is \<open>fl (9 / 10)\<close>.
  \<^item> The configured \<open>DATE_TOLERANCE_DAYS\<close> and \<open>AMOUNT_TOLERANCE_PERCENT\<close> of the instance are
    the parameters \<open>d\<close> and \<open>p\<close> of every function that reads them; \<open>p\<close> stands for
    \<open>Decimal(str(self.AMOUNT_TOLERANCE_PERCENT))\<close>.
  \<^item> The opaque \<open>raw_data\<close> payload, the period bounds (defaulted from the clock) and the
    \<open>reconciled_at\<close> timestamp are read by no function modelled here and are left out.
\<close>

datatype MatchStatus = MATCHED | PARTIAL | UNMATCHED | DUPLICATE | MANUAL_REVIEW

datatype MatchType = EXACT | AMOUNT_ONLY | FUZZY | REFERENCE | DESCRIPTION

record BankTransaction =
  bt_id :: string
  bt_date :: int
  bt_description :: string
  bt_amount :: rat
  bt_balance :: "rat option"
  bt_reference :: "string option"
  bt_transaction_type :: string

record BookTransaction =
  bk_id :: string
  bk_date :: int
  bk_description :: string
  bk_amount :: rat
  bk_account_code :: string
  bk_account_name :: string
  bk_entity :: string
  bk_reference :: "string option"
  bk_source :: string
  bk_reconciled :: bool

record MatchedTransaction =
  bank_txn :: BankTransaction
  book_txn :: BookTransaction
  match_type :: MatchType
  confidence :: rat
  date_diff_days :: int
  amount_diff :: rat
  mt_notes :: string

text \<open>One entry of \<open>possible_matches\<close> (a dict in the source).\<close>

record PossibleMatch =
  pm_book_id :: string
  pm_amount :: rat
  pm_date :: int
  pm_description :: string
  pm_date_diff_days :: int

datatype Transaction = Bank BankTransaction | Book BookTransaction

record UnmatchedItem =
  transaction :: Transaction
  source :: string
  status :: MatchStatus
  possible_matches :: "PossibleMatch list"

record ReconciliationResult =
  entity :: string
  account :: string
  bank_opening_balance :: rat
  bank_closing_balance :: rat
  book_opening_balance :: rat
  book_closing_balance :: rat
  matched :: "MatchedTransaction list"
  unmatched_bank :: "UnmatchedItem list"
  unmatched_book :: "UnmatchedItem list"

datatype py_error = ZeroDivisionError

text \<open>Python's true division of two integers: it raises on a zero divisor and returns the
  \<open>float\<close> nearest to the quotient otherwise.\<close>

definition py_truediv :: "rat \<Rightarrow> rat \<Rightarrow> py_error + rat" where
  "py_truediv a b = (if b = 0 then Inl ZeroDivisionError else Inr (fl (a / b)))"

text \<open>\<open>ReconciliationResult.match_rate\<close>: a percentage, guarded against an empty bank side.\<close>

definition match_rate :: "ReconciliationResult \<Rightarrow> py_error + rat" where
  "match_rate r =
     (let total_bank = length (matched r) + length (unmatched_bank r)
      in if total_bank = 0 then Inr 0
         else case py_truediv (of_nat (length (matched r))) (of_nat total_bank) of
                Inl e \<Rightarrow> Inl e
              | Inr q \<Rightarrow> Inr (fmul q 100))"



text \<open>Python truthiness of an optional string: \<open>None\<close> and the empty string are false.\<close>

definition truthy :: "string option \<Rightarrow> bool" where
  "truthy r = (case r of None \<Rightarrow> False | Some s \<Rightarrow> s \<noteq> [])"

definition MIN_CONFIDENCE_THRESHOLD :: rat where
  "MIN_CONFIDENCE_THRESHOLD = fl (7 / 10)"

definition amounts_match :: "rat \<Rightarrow> rat \<Rightarrow> rat \<Rightarrow> bool" where
  "amounts_match p amount1 amount2 =
     (if amount1 = amount2 then True
      else let tolerance = dmul (dabs amount1) p in dabs (dsub amount1 amount2) \<le> tolerance)"

definition create_match ::
  "BankTransaction \<Rightarrow> BookTransaction \<Rightarrow> MatchType \<Rightarrow> rat \<Rightarrow> MatchedTransaction" where
  "create_match b k mt c =
     \<lparr>bank_txn = b, book_txn = k, match_type = mt, confidence = c,
      date_diff_days = \<bar>bt_date b - bk_date k\<bar>,
      amount_diff = dabs (dsub (bt_amount b) (bk_amount k)), mt_notes = []\<rparr>"

definition try_match ::
  "int \<Rightarrow> rat \<Rightarrow> BankTransaction \<Rightarrow> BookTransaction \<Rightarrow> MatchedTransaction option" where
  "try_match d p b k =
     (if \<not> amounts_match p (bt_amount b) (bk_amount k) then None
      else let date_diff = \<bar>bt_date b - bk_date k\<bar> in
        if date_diff > d then None
        else if date_diff = 0 \<and> bt_amount b = bk_amount k
          then Some (create_match b k EXACT 1)
        else if date_diff = 0
          then Some (create_match b k AMOUNT_ONLY (fl (95 / 100)))
        else Some (create_match b k FUZZY
               (max (fl (7 / 10)) (fsub 1 (fmul (fl (of_int date_diff)) (fl (1 / 10)))))))"

text \<open>The loop state of \<open>reconcile\<close>: the matches appended so far and the two id sets.\<close>

record recon_state =
  rs_matched :: "MatchedTransaction list"
  matched_bank_ids :: "string set"
  matched_book_ids :: "string set"

definition commit :: "MatchedTransaction \<Rightarrow> recon_state \<Rightarrow> recon_state" where
  "commit m s =
     \<lparr>rs_matched = rs_matched s @ [m],
      matched_bank_ids = insert (bt_id (bank_txn m)) (matched_bank_ids s),
      matched_book_ids = insert (bk_id (book_txn m)) (matched_book_ids s)\<rparr>"

text \<open>Phase 1, inner loop: the first unmatched book transaction that matches exactly.\<close>

fun phase1_scan ::
  "int \<Rightarrow> rat \<Rightarrow> BankTransaction \<Rightarrow> BookTransaction list \<Rightarrow> recon_state \<Rightarrow> recon_state" where
  "phase1_scan d p b [] s = s"
| "phase1_scan d p b (k # ks) s =
     (if bk_id k \<in> matched_book_ids s then phase1_scan d p b ks s
      else case try_match d p b k of
             None \<Rightarrow> phase1_scan d p b ks s
           | Some m \<Rightarrow> if match_type m = EXACT then commit m s else phase1_scan d p b ks s)"

definition phase1_step ::
  "int \<Rightarrow> rat \<Rightarrow> BookTransaction list \<Rightarrow> BankTransaction \<Rightarrow> recon_state \<Rightarrow> recon_state" where
  "phase1_step d p books b s =
     (if bt_id b \<in> matched_bank_ids s then s else phase1_scan d p b books s)"

text \<open>Phase 2, inner loop: the first unmatched book transaction whose reference contains the
  bank reference (\<open>in\<close> on strings is the contiguous-substring test).\<close>

fun phase2_scan :: "BankTransaction \<Rightarrow> BookTransaction list \<Rightarrow> recon_state \<Rightarrow> recon_state" where
  "phase2_scan b [] s = s"
| "phase2_scan b (k # ks) s =
     (if bk_id k \<in> matched_book_ids s then phase2_scan b ks s
      else if truthy (bk_reference k) \<and> sublist (the (bt_reference b)) (the (bk_reference k))
        then commit (create_match b k REFERENCE (fl (9 / 10))) s
      else phase2_scan b ks s)"

definition phase2_step ::
  "BookTransaction list \<Rightarrow> BankTransaction \<Rightarrow> recon_state \<Rightarrow> recon_state" where
  "phase2_step books b s =
     (if bt_id b \<in> matched_bank_ids s then s
      else if \<not> truthy (bt_reference b) then s
      else phase2_scan b books s)"

text \<open>Phase 3: the candidates of one bank transaction, in the order of the sorted books.\<close>

definition candidates ::
  "int \<Rightarrow> rat \<Rightarrow> BankTransaction \<Rightarrow> BookTransaction list \<Rightarrow> recon_state
     \<Rightarrow> (MatchedTransaction \<times> BookTransaction) list" where
  "candidates d p b books s =
     List.map_filter
       (\<lambda>k. if bk_id k \<in> matched_book_ids s then None
            else case try_match d p b k of
                   None \<Rightarrow> None
                 | Some m \<Rightarrow> if confidence m \<ge> MIN_CONFIDENCE_THRESHOLD then Some (m, k) else None)
       books"

text \<open>\<open>candidates.sort(key=lambda x: x[0].confidence, reverse=True)\<close>: a stable sort,
  descending; entries of equal confidence keep their order.\<close>

definition sort_by_confidence ::
  "(MatchedTransaction \<times> BookTransaction) list \<Rightarrow> (MatchedTransaction \<times> BookTransaction) list" where
  "sort_by_confidence cs = sort_key (\<lambda>x. - confidence (fst x)) cs"

definition phase3_step ::
  "int \<Rightarrow> rat \<Rightarrow> BookTransaction list \<Rightarrow> BankTransaction \<Rightarrow> recon_state \<Rightarrow> recon_state" where
  "phase3_step d p books b s =
     (if bt_id b \<in> matched_bank_ids s then s
      else case sort_by_confidence (candidates d p b books s) of
             [] \<Rightarrow> s
           | (best_match, best_book) # _ \<Rightarrow>
               \<lparr>rs_matched = rs_matched s @ [best_match],
                matched_bank_ids = insert (bt_id b) (matched_bank_ids s),
                matched_book_ids = insert (bk_id best_book) (matched_book_ids s)\<rparr>)"

text \<open>\<open>possible.sort(key=lambda x: x["date_diff_days"])\<close> and the slice \<open>[:5]\<close>.\<close>

definition find_possible_matches ::
  "rat \<Rightarrow> BankTransaction \<Rightarrow> BookTransaction list \<Rightarrow> string set \<Rightarrow> PossibleMatch list" where
  "find_possible_matches p b books matched_ids =
     take 5 (sort_key pm_date_diff_days
       (map (\<lambda>k. \<lparr>pm_book_id = bk_id k, pm_amount = fl (bk_amount k), pm_date = bk_date k,
                   pm_description = bk_description k,
                   pm_date_diff_days = \<bar>bt_date b - bk_date k\<bar>\<rparr>)
          (filter (\<lambda>k. bk_id k \<notin> matched_ids \<and> amounts_match p (bt_amount b) (bk_amount k))
             books)))"

definition init_state :: recon_state where
  "init_state = \<lparr>rs_matched = [], matched_bank_ids = {}, matched_book_ids = {}\<rparr>"

definition bank_sorted :: "BankTransaction list \<Rightarrow> BankTransaction list" where
  "bank_sorted bank = sort_key (\<lambda>x. (bt_date x, bt_amount x)) bank"

definition book_sorted :: "BookTransaction list \<Rightarrow> BookTransaction list" where
  "book_sorted book = sort_key (\<lambda>x. (bk_date x, bk_amount x)) book"

definition run_phase1 ::
  "int \<Rightarrow> rat \<Rightarrow> BankTransaction list \<Rightarrow> BookTransaction list \<Rightarrow> recon_state" where
  "run_phase1 d p bank book =
     fold (phase1_step d p (book_sorted book)) (bank_sorted bank) init_state"

definition run_phase2 ::
  "int \<Rightarrow> rat \<Rightarrow> BankTransaction list \<Rightarrow> BookTransaction list \<Rightarrow> recon_state" where
  "run_phase2 d p bank book =
     fold (phase2_step (book_sorted book)) (bank_sorted bank) (run_phase1 d p bank book)"

definition run_phase3 ::
  "int \<Rightarrow> rat \<Rightarrow> BankTransaction list \<Rightarrow> BookTransaction list \<Rightarrow> recon_state" where
  "run_phase3 d p bank book =
     fold (phase3_step d p (book_sorted book)) (bank_sorted bank) (run_phase2 d p bank book)"

definition unmatched_bank_item ::
  "rat \<Rightarrow> BookTransaction list \<Rightarrow> string set \<Rightarrow> BankTransaction \<Rightarrow> UnmatchedItem" where
  "unmatched_bank_item p books matched_ids b =
     (let possible = find_possible_matches p b books matched_ids
      in \<lparr>transaction = Bank b, source = ''bank'',
          status = (if possible \<noteq> [] then MANUAL_REVIEW else UNMATCHED),
          possible_matches = possible\<rparr>)"

definition unmatched_book_item :: "BookTransaction \<Rightarrow> UnmatchedItem" where
  "unmatched_book_item k =
     \<lparr>transaction = Book k, source = ''book'', status = UNMATCHED, possible_matches = []\<rparr>"

definition reconcile ::
  "int \<Rightarrow> rat \<Rightarrow> string \<Rightarrow> string \<Rightarrow> BankTransaction list \<Rightarrow> BookTransaction list
     \<Rightarrow> rat \<Rightarrow> rat \<Rightarrow> rat \<Rightarrow> rat \<Rightarrow> ReconciliationResult" where
  "reconcile d p ent acct bank book bank_opening bank_closing book_opening book_closing =
     (let s = run_phase3 d p bank book
      in \<lparr>entity = ent, account = acct,
          bank_opening_balance = bank_opening, bank_closing_balance = bank_closing,
          book_opening_balance = book_opening, book_closing_balance = book_closing,
          matched = rs_matched s,
          unmatched_bank =
            map (unmatched_bank_item p (book_sorted book) (matched_book_ids s))
              (filter (\<lambda>b. bt_id b \<notin> matched_bank_ids s) (bank_sorted bank)),
          unmatched_book =
            map unmatched_book_item
              (filter (\<lambda>k. bk_id k \<notin> matched_book_ids s) (book_sorted book))\<rparr>)"

section \<open>Duplicate detection (card_processor/duplicate_detector.py)\<close>

text \<open>
  Conventions of the embedding.
  \<^item> The amount of a parsed transaction is kept with its representation (sign, coefficient,
    exponent), because \<open>ParsedTransaction.hash\<close> prints it: \<open>Decimal("500")\<close> and
    \<open>Decimal("500.00")\<close> are equal as numbers and print differently. \<open>dval\<close> is the number; all
    arithmetic is on it.
  \<^item> A naive \<open>datetime\<close> is its count of microseconds from the epoch; \<open>timedelta.days\<close> is the
    floor of the difference divided by one day, and \<open>strftime("%Y-%m-%d")\<close> names the calendar
    day, the floor of the instant divided by one day.
  \<^item> \<open>pt_obj\<close> is the identity of the Python object (what \<open>id(t)\<close> returns and \<open>is\<close> compares).
  \<^item> \<open>ParsedTransaction.hash\<close> is a SHA-256 prefix of the text \<open>date|description|amount\<close>. The
    model takes the digest to be collision-free and represents it by what the text encodes:
    the instant, the description and the printed amount (the instant's text has no bar and
    the amount's text has none, so the text determines the three).
  \<^item> A text is the list of its code points, each below 256 (Latin-1); \<open>str.lower\<close> and
    \<open>str.split\<close> are modelled on that range.
  \<^item> The formatted reason strings are the constructors of \<open>reason\<close>, which carry the numbers
    the source formats.
  \<^item> The fields \<open>posting_date\<close>, \<open>balance\<close>, \<open>transaction_type\<close> and \<open>raw_data\<close> are read by no
    function modelled here and are left out; \<open>_seen_hashes\<close> is never read or written outside
    \<open>reset\<close>.
\<close>

datatype decimal = Decimal (d_sign: bool) (d_coeff: nat) (d_exp: int)

definition dval :: "decimal \<Rightarrow> rat" where
  "dval x =
     (if d_sign x then - 1 else 1) * of_nat (d_coeff x)
       * (if 0 \<le> d_exp x then 10 ^ nat (d_exp x) else 1 / 10 ^ nat (- d_exp x))"

record ParsedTransaction =
  pt_obj :: nat
  pt_date :: int
  pt_description :: string
  pt_merchant :: string
  pt_amount :: decimal
  pt_reference :: "string option"

definition DAY :: int where
  "DAY = 86400000000"

text \<open>\<open>timedelta.days\<close> of a difference of instants.\<close>

definition td_days :: "int \<Rightarrow> int" where
  "td_days us = us div DAY"

text \<open>\<open>ParsedTransaction.hash\<close>.\<close>

definition pt_hash :: "ParsedTransaction \<Rightarrow> int \<times> string \<times> decimal" where
  "pt_hash t = (pt_date t, pt_description t, pt_amount t)"

datatype reason =
    ExactHashMatch          \<comment> \<open>"Exact hash match"\<close>
  | SameDate                \<comment> \<open>"Same date"\<close>
  | WithinDays int          \<comment> \<open>"Within n day(s)"\<close>
  | ExactAmountMatch        \<comment> \<open>"Exact amount match"\<close>
  | AmountWithinTolerance rat  \<comment> \<open>"Amount within x% tolerance"\<close>
  | DescriptionSimilar rat  \<comment> \<open>"Description x% similar"\<close>
  | SameMerchant            \<comment> \<open>"Same merchant"\<close>
  | SameReferenceNumber     \<comment> \<open>"Same reference number"\<close>

record DuplicateMatch =
  dm_transaction :: ParsedTransaction
  matched_with :: ParsedTransaction
  dm_confidence :: rat
  match_reasons :: "reason list"
  is_likely_duplicate :: bool

record DedupStats =
  total_checked :: nat
  st_unique :: nat
  st_potential_duplicates :: nat
  st_definite_duplicates :: nat
  duplicate_rate :: rat

record DeduplicationResult =
  unique_transactions :: "ParsedTransaction list"
  potential_duplicates :: "DuplicateMatch list"
  definite_duplicates :: "DuplicateMatch list"
  stats :: "DedupStats option"

definition HIGH_CONFIDENCE_THRESHOLD :: rat where
  "HIGH_CONFIDENCE_THRESHOLD = fl (9 / 10)"

definition MEDIUM_CONFIDENCE_THRESHOLD :: rat where
  "MEDIUM_CONFIDENCE_THRESHOLD = fl (7 / 10)"

text \<open>\<open>str.lower\<close> on code points below 256: the letters \<open>A\<close> to \<open>Z\<close>, U+00C0 to U+00D6 and
  U+00D8 to U+00DE move up by 32, every other code point stays.\<close>

definition lower_char :: "char \<Rightarrow> char" where
  "lower_char c =
     (let n = (of_char c :: nat)
      in if (65 \<le> n \<and> n \<le> 90) \<or> (192 \<le> n \<and> n \<le> 214) \<or> (216 \<le> n \<and> n \<le> 222)
         then char_of (n + 32) else c)"

definition lower :: "string \<Rightarrow> string" where
  "lower s = map lower_char s"

text \<open>\<open>str.split()\<close> splits at runs of white space; below 256 the white space is U+0009 to
  U+000D, U+001C to U+0020, U+0085 and U+00A0.\<close>

definition is_space :: "char \<Rightarrow> bool" where
  "is_space c =
     (let n = (of_char c :: nat)
      in (9 \<le> n \<and> n \<le> 13) \<or> (28 \<le> n \<and> n \<le> 32) \<or> n = 133 \<or> n = 160)"

fun split_ws :: "string \<Rightarrow> string \<Rightarrow> string list" where
  "split_ws w [] = (if w = [] then [] else [w])"
| "split_ws w (c # cs) =
     (if is_space c then (if w = [] then split_ws [] cs else w # split_ws [] cs)
      else split_ws (w @ [c]) cs)"

definition split :: "string \<Rightarrow> string list" where
  "split s = split_ws [] s"

definition string_similarity :: "string \<Rightarrow> string \<Rightarrow> rat" where
  "string_similarity s1 s2 =
     (if s1 = [] \<or> s2 = [] then 0
      else let words1 = set (split s1); words2 = set (split s2) in
        if words1 = {} \<or> words2 = {} then 0
        else let intersection = card (words1 \<inter> words2); union = card (words1 \<union> words2)
             in if union > 0 then fl (of_nat intersection / of_nat union) else 0)"

text \<open>Steps 4 to 6 of \<open>_compare_transactions\<close> and its final decision, from the confidence and
  the reasons accumulated by the date and amount steps.\<close>

definition score_text ::
  "ParsedTransaction \<Rightarrow> ParsedTransaction \<Rightarrow> rat \<Rightarrow> reason list \<Rightarrow> DuplicateMatch option" where
  "score_text txn1 txn2 conf0 reasons0 =
     (let desc_similarity =
            string_similarity (lower (pt_description txn1)) (lower (pt_description txn2));
          (conf1, reasons1) =
            (if desc_similarity > fl (8 / 10)
               then (fadd conf0 (fl (3 / 10)),
                     reasons0 @ [DescriptionSimilar (fmul desc_similarity 100)])
             else if desc_similarity > fl (5 / 10)
               then (fadd conf0 (fl (15 / 100)),
                     reasons0 @ [DescriptionSimilar (fmul desc_similarity 100)])
             else (conf0, reasons0));
          (conf2, reasons2) =
            (if pt_merchant txn1 \<noteq> [] \<and> pt_merchant txn2 \<noteq> []
               then (if string_similarity (lower (pt_merchant txn1)) (lower (pt_merchant txn2))
                        > fl (8 / 10)
                     then (fadd conf1 (fl (2 / 10)), reasons1 @ [SameMerchant])
                     else (conf1, reasons1))
             else (conf1, reasons1));
          (conf3, reasons3) =
            (if truthy (pt_reference txn1) \<and> truthy (pt_reference txn2)
               then (if pt_reference txn1 = pt_reference txn2
                     then (fadd conf2 (fl (3 / 10)), reasons2 @ [SameReferenceNumber])
                     else (conf2, reasons2))
             else (conf2, reasons2))
      in if conf3 \<ge> MEDIUM_CONFIDENCE_THRESHOLD
         then Some \<lparr>dm_transaction = txn1, matched_with = txn2,
                     dm_confidence = min conf3 1, match_reasons = reasons3,
                     is_likely_duplicate = (conf3 \<ge> HIGH_CONFIDENCE_THRESHOLD)\<rparr>
         else None)"

definition compare_transactions ::
  "int \<Rightarrow> rat \<Rightarrow> ParsedTransaction \<Rightarrow> ParsedTransaction \<Rightarrow> DuplicateMatch option" where
  "compare_transactions d p txn1 txn2 =
     (if pt_obj txn1 = pt_obj txn2 then None
      else if pt_hash txn1 = pt_hash txn2
        then Some \<lparr>dm_transaction = txn1, matched_with = txn2, dm_confidence = 1,
                    match_reasons = [ExactHashMatch], is_likely_duplicate = True\<rparr>
      else let date_diff = \<bar>td_days (pt_date txn1 - pt_date txn2)\<bar> in
        if date_diff > d then None
        else let (conf1, reasons1) =
                   (if date_diff = 0 then (fadd 0 (fl (3 / 10)), [SameDate])
                    else (fadd 0 (fl (1 / 10)), [WithinDays date_diff]));
                 amount_diff = dabs (dsub (dval (pt_amount txn1)) (dval (pt_amount txn2)));
                 tolerance = dmul (dabs (dval (pt_amount txn1))) p
             in if amount_diff = 0
                  then score_text txn1 txn2 (fadd conf1 (fl (4 / 10)))
                         (reasons1 @ [ExactAmountMatch])
                else if amount_diff \<le> tolerance
                  then score_text txn1 txn2 (fadd conf1 (fl (2 / 10)))
                         (reasons1 @ [AmountWithinTolerance (fmul (fl p) 100)])
                else None)"

text \<open>The loop shared by \<open>check_single\<close> and \<open>_find_duplicate\<close>: the first candidate, in list
  order, for which \<open>_compare_transactions\<close> returns a match.\<close>

fun first_match ::
  "int \<Rightarrow> rat \<Rightarrow> ParsedTransaction \<Rightarrow> ParsedTransaction list \<Rightarrow> DuplicateMatch option" where
  "first_match d p t [] = None"
| "first_match d p t (c # cs) =
     (case compare_transactions d p t c of
        Some m \<Rightarrow> Some m
      | None \<Rightarrow> first_match d p t cs)"

definition check_single ::
  "int \<Rightarrow> rat \<Rightarrow> ParsedTransaction \<Rightarrow> ParsedTransaction list \<Rightarrow> DuplicateMatch option" where
  "check_single d p t existing_transactions = first_match d p t existing_transactions"

text \<open>The index: a dict from a key text to a list of transactions. An amount key is the text
  of \<open>int(abs(amount))\<close> (digits only) and a date key is \<open>YYYY-MM-DD\<close>, so the two kinds never
  collide and are kept apart by constructor.\<close>

datatype index_key = AmountKey int | DateKey int

definition amount_key :: "ParsedTransaction \<Rightarrow> index_key" where
  "amount_key t = AmountKey \<lfloor>dabs (dval (pt_amount t))\<rfloor>"

definition date_key :: "ParsedTransaction \<Rightarrow> index_key" where
  "date_key t = DateKey (pt_date t div DAY)"

type_synonym txn_index = "index_key \<rightharpoonup> ParsedTransaction list"

definition index_append :: "index_key \<Rightarrow> ParsedTransaction \<Rightarrow> txn_index \<Rightarrow> txn_index" where
  "index_append key t idx =
     (case idx key of None \<Rightarrow> idx(key \<mapsto> [t]) | Some ts \<Rightarrow> idx(key \<mapsto> ts @ [t]))"

definition build_index :: "ParsedTransaction list \<Rightarrow> txn_index" where
  "build_index transactions =
     fold (\<lambda>t idx. index_append (date_key t) t (index_append (amount_key t) t idx))
       transactions Map.empty"

definition indexed_candidates :: "txn_index \<Rightarrow> ParsedTransaction \<Rightarrow> nat set" where
  "indexed_candidates idx t =
     (case idx (amount_key t) of None \<Rightarrow> {} | Some ts \<Rightarrow> set (map pt_obj ts))
     \<union> (case idx (date_key t) of None \<Rightarrow> {} | Some ts \<Rightarrow> set (map pt_obj ts))"

definition find_duplicate ::
  "txn_index \<Rightarrow> int \<Rightarrow> rat \<Rightarrow> ParsedTransaction \<Rightarrow> ParsedTransaction list
     \<Rightarrow> DuplicateMatch option" where
  "find_duplicate idx d p t cands =
     (let ic = indexed_candidates idx t;
          filtered_candidates = filter (\<lambda>c. pt_obj c \<in> ic \<or> length cands < 100) cands
      in first_match d p t filtered_candidates)"

text \<open>The two identical \<open>if match.confidence >= HIGH\<close> blocks of \<open>check_batch\<close>.\<close>

definition record_match :: "DuplicateMatch \<Rightarrow> DeduplicationResult \<Rightarrow> DeduplicationResult" where
  "record_match m res =
     (if dm_confidence m \<ge> HIGH_CONFIDENCE_THRESHOLD
      then res\<lparr>definite_duplicates := definite_duplicates res @ [m]\<rparr>
      else res\<lparr>potential_duplicates := potential_duplicates res @ [m]\<rparr>)"

definition batch_step ::
  "txn_index \<Rightarrow> int \<Rightarrow> rat \<Rightarrow> ParsedTransaction list \<Rightarrow> ParsedTransaction
     \<Rightarrow> DeduplicationResult \<Rightarrow> DeduplicationResult" where
  "batch_step idx d p all_to_compare txn res =
     (case find_duplicate idx d p txn all_to_compare of
        Some m \<Rightarrow> record_match m res
      | None \<Rightarrow>
          (case find_duplicate idx d p txn (unique_transactions res) of
             Some batch_match \<Rightarrow> record_match batch_match res
           | None \<Rightarrow> res\<lparr>unique_transactions := unique_transactions res @ [txn]\<rparr>))"

definition empty_result :: DeduplicationResult where
  "empty_result =
     \<lparr>unique_transactions = [], potential_duplicates = [], definite_duplicates = [],
      stats = None\<rparr>"

definition batch_loop ::
  "int \<Rightarrow> rat \<Rightarrow> ParsedTransaction list \<Rightarrow> ParsedTransaction list \<Rightarrow> DeduplicationResult" where
  "batch_loop d p transactions existing_transactions =
     fold (batch_step (build_index existing_transactions) d p existing_transactions)
       transactions empty_result"

definition compute_stats :: "nat \<Rightarrow> DeduplicationResult \<Rightarrow> py_error + DedupStats" where
  "compute_stats total_n res =
     (case (if total_n > 0
            then py_truediv
                   (of_nat (length (potential_duplicates res) + length (definite_duplicates res)))
                   (of_nat total_n)
            else Inr 0) of
        Inl e \<Rightarrow> Inl e
      | Inr rate \<Rightarrow>
          Inr \<lparr>total_checked = total_n, st_unique = length (unique_transactions res),
               st_potential_duplicates = length (potential_duplicates res),
               st_definite_duplicates = length (definite_duplicates res),
               duplicate_rate = rate\<rparr>)"

text \<open>\<open>check_batch\<close>; an absent \<open>existing_transactions\<close> is the empty list
  (\<open>existing_transactions or []\<close>).\<close>

definition check_batch ::
  "int \<Rightarrow> rat \<Rightarrow> ParsedTransaction list \<Rightarrow> ParsedTransaction list
     \<Rightarrow> py_error + DeduplicationResult" where
  "check_batch d p transactions existing_transactions =
     (let res = batch_loop d p transactions existing_transactions
      in case compute_stats (length transactions) res of
           Inl e \<Rightarrow> Inl e
         | Inr st \<Rightarrow> Inr (res\<lparr>stats := Some st\<rparr>))"

section \<open>Concrete transactions for the worked examples\<close>

text \<open>Constructors for the transactions of the examples: every field that the example does
  not fix is empty.\<close>

definition bank_of :: "string \<Rightarrow> int \<Rightarrow> rat \<Rightarrow> string option \<Rightarrow> BankTransaction" where
  "bank_of i dt a r =
     \<lparr>bt_id = i, bt_date = dt, bt_description = [], bt_amount = a, bt_balance = None,
      bt_reference = r, bt_transaction_type = []\<rparr>"

definition book_of :: "string \<Rightarrow> int \<Rightarrow> rat \<Rightarrow> string option \<Rightarrow> BookTransaction" where
  "book_of i dt a r =
     \<lparr>bk_id = i, bk_date = dt, bk_description = [], bk_amount = a, bk_account_code = [],
      bk_account_name = [], bk_entity = [], bk_reference = r, bk_source = [],
      bk_reconciled = False\<rparr>"

text \<open>A parsed transaction at midnight of day \<open>day\<close>.\<close>

definition parsed_of ::
  "nat \<Rightarrow> int \<Rightarrow> string \<Rightarrow> string \<Rightarrow> decimal \<Rightarrow> string option \<Rightarrow> ParsedTransaction" where
  "parsed_of i day desc m a r =
     \<lparr>pt_obj = i, pt_date = day * DAY, pt_description = desc, pt_merchant = m,
      pt_amount = a, pt_reference = r\<rparr>"

definition far_bank :: BankTransaction where
  "far_bank = bank_of ''B1'' 1 100 (Some ''X'')"

definition far_book :: BookTransaction where
  "far_book = book_of ''K1'' 100 5000 (Some ''X'')"

definition near_bank :: BankTransaction where
  "near_bank = bank_of ''B1'' 10 100 None"

definition near_book :: BookTransaction where
  "near_book = book_of ''K1'' 11 (201 / 2) None"

definition near_match :: MatchedTransaction where
  "near_match = create_match near_bank near_book FUZZY (9 / 10)"

definition new_txn :: ParsedTransaction where
  "new_txn = parsed_of 1 10 [] [] (Decimal False 100 0) (Some ''R'')"

definition old_txn :: ParsedTransaction where
  "old_txn = parsed_of 0 11 [] [] (Decimal False 100 0) (Some ''R'')"

definition near_dup :: DuplicateMatch where
  "near_dup =
     \<lparr>dm_transaction = new_txn, matched_with = old_txn, dm_confidence = 8 / 10,
      match_reasons = [WithinDays 1, ExactAmountMatch, SameReferenceNumber],
      is_likely_duplicate = False\<rparr>"

definition twin_old :: ParsedTransaction where
  "twin_old = parsed_of 0 10 ''A'' [] (Decimal False 50000 (- 2)) None"

definition twin_a :: ParsedTransaction where
  "twin_a = parsed_of 1 10 ''A'' [] (Decimal False 50000 (- 2)) None"

definition twin_b :: ParsedTransaction where
  "twin_b = parsed_of 2 10 ''A'' [] (Decimal False 50000 (- 2)) (Some ''Z'')"

definition hash_match :: "ParsedTransaction \<Rightarrow> ParsedTransaction \<Rightarrow> DuplicateMatch" where
  "hash_match t1 t2 =
     \<lparr>dm_transaction = t1, matched_with = t2, dm_confidence = 1,
      match_reasons = [ExactHashMatch], is_likely_duplicate = True\<rparr>"

definition twin_result :: DeduplicationResult where
  "twin_result =
     \<lparr>unique_transactions = [], potential_duplicates = [],
      definite_duplicates = [hash_match twin_a twin_old, hash_match twin_b twin_old],
      stats = Some \<lparr>total_checked = 2, st_unique = 0, st_potential_duplicates = 0,
                    st_definite_duplicates = 2, duplicate_rate = 1\<rparr>\<rparr>"


section \<open>Invariants of the loops\<close>

text \<open>What holds of the loop state of \<open>reconcile\<close> after every step: the id sets are the ids of
  the committed matches, no id is committed twice, and every committed match was built by
  \<open>_try_match\<close> or by the reference phase.\<close>

definition recon_inv :: "int \<Rightarrow> rat \<Rightarrow> recon_state \<Rightarrow> bool" where
  "recon_inv d p s \<longleftrightarrow>
     matched_bank_ids s = set (map (\<lambda>m. bt_id (bank_txn m)) (rs_matched s))
   \<and> matched_book_ids s = set (map (\<lambda>m. bk_id (book_txn m)) (rs_matched s))
   \<and> distinct (map (\<lambda>m. bt_id (bank_txn m)) (rs_matched s))
   \<and> distinct (map (\<lambda>m. bk_id (book_txn m)) (rs_matched s))
   \<and> (\<forall>m \<in> set (rs_matched s).
        \<exists>b k. try_match d p b k = Some m \<or> m = create_match b k REFERENCE (fl (9 / 10)))"

text \<open>The matches a batch check reports, and the object identities it has classified.\<close>

definition reported :: "DeduplicationResult \<Rightarrow> DuplicateMatch list" where
  "reported res = potential_duplicates res @ definite_duplicates res"

definition objs_of :: "DeduplicationResult \<Rightarrow> nat list" where
  "objs_of res =
     map (\<lambda>m. pt_obj (dm_transaction m)) (potential_duplicates res)
     @ map (\<lambda>m. pt_obj (dm_transaction m)) (definite_duplicates res)
     @ map pt_obj (unique_transactions res)"

section \<open>Properties of the rounding\<close>

lemma round_half_even_of_int [simp]: "round_half_even (of_int k) = k"
  by (simp add: round_half_even_def)

lemma round_half_even_nonneg: "0 \<le> y \<Longrightarrow> 0 \<le> round_half_even y"
  by (auto simp: round_half_even_def Let_def)

lemma round_half_even_mono: "x \<le> y \<Longrightarrow> round_half_even x \<le> round_half_even y"
proof -
  assume xy: "x \<le> y"
  then have f: "\<lfloor>x\<rfloor> \<le> \<lfloor>y\<rfloor>" by (rule floor_mono)
  show ?thesis
  proof (cases "\<lfloor>x\<rfloor> = \<lfloor>y\<rfloor>")
    case True
    with xy show ?thesis by (auto simp: round_half_even_def Let_def)
  next
    case False
    with f have "\<lfloor>x\<rfloor> + 1 \<le> \<lfloor>y\<rfloor>" by simp
    moreover have "round_half_even x \<le> \<lfloor>x\<rfloor> + 1" by (auto simp: round_half_even_def Let_def)
    moreover have "\<lfloor>y\<rfloor> \<le> round_half_even y" by (auto simp: round_half_even_def Let_def)
    ultimately show ?thesis by linarith
  qed
qed

lemma round_sig_zero [simp]: "round_sig b n 0 = 0"
  by (simp add: round_sig_def)

lemma round_sig_nonneg:
  assumes "0 \<le> x" shows "0 \<le> round_sig b n x"
proof (cases "x = 0")
  case True then show ?thesis by simp
next
  case False
  with assms have x: "0 < x" by simp
  let ?e = "adjusted b x - (int n - 1)"
  have p: "0 \<le> power_int (of_nat b :: rat) ?e"
    by (simp add: zero_le_power_int)
  have "0 \<le> round_half_even (\<bar>x\<bar> / power_int (of_nat b) ?e)"
    using p by (intro round_half_even_nonneg) simp
  with p x show ?thesis
    by (simp add: round_sig_def Let_def)
qed

lemma adjusted_abs [simp]: "adjusted b \<bar>x\<bar> = adjusted b x"
  by (simp add: adjusted_def)

lemma adjusted_minus [simp]: "adjusted b (- x) = adjusted b x"
  by (simp add: adjusted_def)

lemma round_sig_minus: "round_sig b n (- x) = - round_sig b n x"
  by (simp add: round_sig_def Let_def sgn_minus)


lemma adjusted_bounds:
  assumes b: "1 < b" and x: "x \<noteq> 0"
  shows "power_int (of_nat b) (adjusted b x) \<le> \<bar>x\<bar>"
    and "\<bar>x\<bar> < power_int (of_nat b) (adjusted b x + 1)"
proof -
  have both: "power_int (of_nat b) (adjusted b x) \<le> \<bar>x\<bar>
      \<and> \<bar>x\<bar> < power_int (of_nat b) (adjusted b x + 1)"
  proof (cases "1 \<le> \<bar>x\<bar>")
    case True
    let ?f = "nat \<lfloor>\<bar>x\<bar>\<rfloor>"
    let ?d = "floorlog b ?f"
    have f1: "1 \<le> \<lfloor>\<bar>x\<bar>\<rfloor>" using True by simp
    then have fpos: "0 < ?f" by simp
    note fb = floorlog_bounds[OF fpos b]
    have dpos: "0 < ?d" using fpos b by (simp add: floorlog_def)
    have adj: "adjusted b x = int ?d - 1" using True by (simp add: adjusted_def)
    have "(of_nat (b ^ (?d - 1)) :: rat) \<le> of_nat ?f"
      using fb by (simp only: of_nat_le_iff)
    also have "\<dots> = of_int \<lfloor>\<bar>x\<bar>\<rfloor>" using f1 by simp
    also have "\<dots> \<le> \<bar>x\<bar>" by simp
    finally have lo: "(of_nat b :: rat) ^ (?d - 1) \<le> \<bar>x\<bar>" by simp
    have "\<bar>x\<bar> < of_int (\<lfloor>\<bar>x\<bar>\<rfloor> + 1)" by linarith
    also have "\<dots> = of_nat (?f + 1)" using f1 by simp
    also have "\<dots> \<le> of_nat (b ^ ?d)"
      using fb by (simp only: of_nat_le_iff) simp
    finally have hi: "\<bar>x\<bar> < (of_nat b :: rat) ^ ?d" by simp
    have e1: "power_int (of_nat b :: rat) (int ?d - 1) = of_nat b ^ (?d - 1)"
      using dpos by (simp add: power_int_def nat_diff_distrib')
    have e2: "power_int (of_nat b :: rat) (int ?d - 1 + 1) = of_nat b ^ ?d"
      by simp
    show ?thesis using lo hi unfolding adj e1 e2 by blast
  next
    case False
    then have x1: "\<bar>x\<bar> < 1" by simp
    have xpos: "0 < \<bar>x\<bar>" using x by simp
    let ?y = "1 / \<bar>x\<bar>"
    have y1: "1 < ?y" using x1 xpos by simp
    let ?c = "\<lceil>?y\<rceil>"
    have c2: "2 \<le> ?c" using y1 by linarith
    let ?m = "nat (?c - 1)"
    have mpos: "0 < ?m" using c2 by linarith
    let ?j = "floorlog b ?m"
    note fb = floorlog_bounds[OF mpos b]
    have adj: "adjusted b x = - int ?j" using False by (simp add: adjusted_def)
    have "?y \<le> of_int ?c" by simp
    also have "\<dots> = of_nat (?m + 1)"
    proof -
      have "\<And>c :: int. 2 \<le> c \<Longrightarrow> int (nat (c - 1) + 1) = c" by simp
      from this[OF c2] have "int (?m + 1) = ?c" .
      then show ?thesis by (metis of_int_of_nat_eq)
    qed
    also have "\<dots> \<le> of_nat (b ^ ?j)" using fb by (simp only: of_nat_le_iff) simp
    finally have yhi: "?y \<le> (of_nat b :: rat) ^ ?j" by simp
    have "(of_nat (b ^ (?j - 1)) :: rat) \<le> of_nat ?m" using fb by (simp only: of_nat_le_iff)
    also have "\<dots> = of_int (?c - 1)"
    proof -
      have "\<And>c :: int. 2 \<le> c \<Longrightarrow> int (nat (c - 1)) = c - 1" by simp
      from this[OF c2] have "int ?m = ?c - 1" .
      then show ?thesis by (metis of_int_of_nat_eq)
    qed
    also have "\<dots> < ?y" by linarith
    finally have ylo: "(of_nat b :: rat) ^ (?j - 1) < ?y" by simp
    have bpos: "0 < (of_nat b :: rat)" using b by simp
    have jpos: "0 < ?j" using mpos b by (simp add: floorlog_def)
    have lo: "1 / (of_nat b :: rat) ^ ?j \<le> \<bar>x\<bar>"
    proof -
      have "\<bar>x\<bar> * ?y \<le> \<bar>x\<bar> * of_nat b ^ ?j"
        using yhi xpos by (intro mult_left_mono) simp_all
      then have "1 \<le> \<bar>x\<bar> * of_nat b ^ ?j" using xpos by simp
      then show ?thesis using bpos by (simp add: field_simps)
    qed
    have hi: "\<bar>x\<bar> < 1 / (of_nat b :: rat) ^ (?j - 1)"
    proof -
      have "\<bar>x\<bar> * of_nat b ^ (?j - 1) < \<bar>x\<bar> * ?y"
        using ylo xpos by (intro mult_strict_left_mono) simp_all
      then have "\<bar>x\<bar> * of_nat b ^ (?j - 1) < 1" using xpos by simp
      then show ?thesis using bpos by (simp add: field_simps)
    qed
    have g: "\<And>k. power_int (of_nat b :: rat) (- int k) = 1 / of_nat b ^ k"
      by (simp add: power_int_def field_simps power_inverse)
    have e1: "power_int (of_nat b :: rat) (- int ?j) = 1 / of_nat b ^ ?j"
      by (rule g)
    have e2: "power_int (of_nat b :: rat) (- int ?j + 1) = 1 / of_nat b ^ (?j - 1)"
    proof -
      have eq: "- int ?j + 1 = - int (?j - 1)" using jpos by simp
      show ?thesis unfolding eq by (rule g)
    qed
    show ?thesis using lo hi unfolding adj e1 e2 by blast
  qed
  from both show "power_int (of_nat b) (adjusted b x) \<le> \<bar>x\<bar>"
    and "\<bar>x\<bar> < power_int (of_nat b) (adjusted b x + 1)" by simp_all
qed


lemma power_int_neg_nat: "power_int (B :: rat) (- int k) = 1 / B ^ k"
  by (simp add: power_int_def field_simps power_inverse)

lemma power_int_less_exp:
  assumes "1 < b" and "power_int (of_nat b :: rat) i < power_int (of_nat b) j"
  shows "i < j"
proof (rule ccontr)
  assume "\<not> i < j"
  then have "j \<le> i" by simp
  then have "power_int (of_nat b :: rat) j \<le> power_int (of_nat b) i"
    using assms(1) by (intro power_int_increasing) simp_all
  with assms(2) show False by simp
qed

lemma round_sig_exact:
  assumes b: "1 < b"
    and int: "x * of_nat b ^ k = of_int m"
    and small: "\<bar>x\<bar> * of_nat b ^ k < of_nat b ^ n"
  shows "round_sig b n x = x"
proof (cases "x = 0")
  case True then show ?thesis by simp
next
  case False
  let ?B = "of_nat b :: rat"
  have Bpos: "0 < ?B" using b by simp
  let ?a = "adjusted b x"
  let ?e = "?a - (int n - 1)"
  note ab = adjusted_bounds[OF b False]
  have "\<bar>x\<bar> < ?B ^ n / ?B ^ k"
    using small Bpos by (simp add: field_simps)
  also have "\<dots> = power_int ?B (int n - int k)"
    using Bpos by (simp add: power_int_diff)
  finally have "power_int ?B ?a < power_int ?B (int n - int k)"
    using ab(1) by simp
  from power_int_less_exp[OF b this] have ek: "?e \<le> - int k" by simp
  define t where "t = nat (- ?e - int k)"
  have e: "?e = - int (k + t)" using ek by (simp add: t_def)
  have pe: "power_int ?B ?e = 1 / ?B ^ (k + t)"
    unfolding e by (rule power_int_neg_nat)
  have "\<bar>x\<bar> / power_int ?B ?e = \<bar>x * ?B ^ k\<bar> * ?B ^ t"
    using Bpos by (simp add: pe power_add abs_mult)
  also have "\<dots> = of_int (\<bar>m\<bar> * int b ^ t)"
    by (simp add: int)
  finally have q: "\<bar>x\<bar> / power_int ?B ?e = of_int (\<bar>m\<bar> * int b ^ t)" .
  have "round_sig b n x = sgn x * of_int (\<bar>m\<bar> * int b ^ t) * power_int ?B ?e"
    using False by (simp add: round_sig_def Let_def q del: of_int_mult of_int_power)
  also have "\<dots> = sgn x * (\<bar>x\<bar> / power_int ?B ?e) * power_int ?B ?e"
    by (simp only: q)
  also have "\<dots> = sgn x * \<bar>x\<bar>"
    using Bpos by (simp add: pe)
  also have "\<dots> = x" by (simp add: sgn_mult_abs)
  finally show ?thesis .
qed

lemma round_sig_pos_bounds:
  assumes b: "1 < b" and n: "0 < n" and x: "0 < x"
  shows "power_int (of_nat b) (adjusted b x) \<le> round_sig b n x"
    and "round_sig b n x \<le> power_int (of_nat b) (adjusted b x + 1)"
proof -
  define B where "B = (of_nat b :: rat)"
  define a where "a = adjusted b x"
  define e where "e = a - (int n - 1)"
  define p where "p = power_int B e"
  have Bpos: "0 < B" using b by (simp add: B_def)
  have ppos: "0 < p" using Bpos by (simp add: p_def)
  have xne: "x \<noteq> 0" using x by simp
  have ab: "power_int B a \<le> x" "x < power_int B (a + 1)"
    using adjusted_bounds[OF b xne] x by (simp_all add: B_def a_def)
  have R: "round_sig b n x = of_int (round_half_even (x / p)) * p"
    using x by (simp add: round_sig_def Let_def p_def e_def a_def B_def)
  have pa: "power_int B a = B ^ (n - 1) * p"
  proof -
    have "a = int (n - 1) + e" using n by (simp add: e_def)
    then have "power_int B a = power_int B (int (n - 1) + e)" by simp
    also have "\<dots> = power_int B (int (n - 1)) * power_int B e"
      using Bpos by (intro power_int_add) simp
    finally show ?thesis by (simp add: p_def)
  qed
  have pa1: "power_int B (a + 1) = B ^ n * p"
  proof -
    have "a + 1 = int n + e" by (simp add: e_def)
    then have "power_int B (a + 1) = power_int B (int n + e)" by simp
    also have "\<dots> = power_int B (int n) * power_int B e"
      using Bpos by (intro power_int_add) simp
    finally show ?thesis by (simp add: p_def)
  qed
  have Bn: "B ^ k = of_int (int b ^ k)" for k by (simp add: B_def)
  have "B ^ (n - 1) * p \<le> x" using ab(1) by (simp only: pa)
  then have lo: "of_int (int b ^ (n - 1)) \<le> x / p"
    using ppos by (simp only: Bn[symmetric] pos_le_divide_eq)
  have "x \<le> B ^ n * p" using ab(2) by (simp only: pa1 less_imp_le)
  then have hi: "x / p \<le> of_int (int b ^ n)"
    using ppos by (simp only: Bn[symmetric] pos_divide_le_eq)
  have "int b ^ (n - 1) \<le> round_half_even (x / p)"
    using round_half_even_mono[OF lo] by (simp only: round_half_even_of_int)
  then have "(of_int (int b ^ (n - 1)) :: rat) \<le> of_int (round_half_even (x / p))"
    by (simp only: of_int_le_iff)
  then have "of_int (int b ^ (n - 1)) * p \<le> of_int (round_half_even (x / p)) * p"
    using ppos by (intro mult_right_mono) simp_all
  then have "power_int B a \<le> round_sig b n x" by (simp only: pa R Bn)
  then show "power_int (of_nat b) (adjusted b x) \<le> round_sig b n x"
    by (simp only: B_def a_def)
  have "round_half_even (x / p) \<le> int b ^ n"
    using round_half_even_mono[OF hi] by (simp only: round_half_even_of_int)
  then have "(of_int (round_half_even (x / p)) :: rat) \<le> of_int (int b ^ n)"
    by (simp only: of_int_le_iff)
  then have "of_int (round_half_even (x / p)) * p \<le> of_int (int b ^ n) * p"
    using ppos by (intro mult_right_mono) simp_all
  then have "round_sig b n x \<le> power_int B (a + 1)" by (simp only: pa1 R Bn)
  then show "round_sig b n x \<le> power_int (of_nat b) (adjusted b x + 1)"
    by (simp only: B_def a_def)
qed

lemma round_sig_mono_pos:
  assumes b: "1 < b" and n: "0 < n" and x: "0 < x" and xy: "x \<le> y"
  shows "round_sig b n x \<le> round_sig b n y"
proof -
  let ?B = "of_nat b :: rat"
  have Bpos: "0 < ?B" using b by simp
  have y: "0 < y" using x xy by simp
  have xne: "x \<noteq> 0" and yne: "y \<noteq> 0" using x y by simp_all
  note ax = adjusted_bounds[OF b xne] and ay = adjusted_bounds[OF b yne]
  have "power_int ?B (adjusted b x) < power_int ?B (adjusted b y + 1)"
    using ax(1) ay(2) x y xy by simp
  from power_int_less_exp[OF b this] have le: "adjusted b x \<le> adjusted b y" by simp
  show ?thesis
  proof (cases "adjusted b x = adjusted b y")
    case True
    let ?p = "power_int ?B (adjusted b y - (int n - 1))"
    have ppos: "0 < ?p" using Bpos by simp
    have "x / ?p \<le> y / ?p" using xy ppos by (simp add: divide_right_mono)
    then have "round_half_even (x / ?p) \<le> round_half_even (y / ?p)"
      by (rule round_half_even_mono)
    then have "(of_int (round_half_even (x / ?p)) :: rat) \<le> of_int (round_half_even (y / ?p))"
      by (simp only: of_int_le_iff)
    then have "of_int (round_half_even (x / ?p)) * ?p \<le> of_int (round_half_even (y / ?p)) * ?p"
      using ppos by (intro mult_right_mono) simp_all
    then show ?thesis using x y True by (simp add: round_sig_def Let_def)
  next
    case False
    with le have "adjusted b x + 1 \<le> adjusted b y" by simp
    then have "power_int ?B (adjusted b x + 1) \<le> power_int ?B (adjusted b y)"
      using b by (intro power_int_increasing) simp_all
    with round_sig_pos_bounds(2)[OF b n x] round_sig_pos_bounds(1)[OF b n y]
    show ?thesis by linarith
  qed
qed

lemma round_sig_mono:
  assumes b: "1 < b" and n: "0 < n" and xy: "x \<le> y"
  shows "round_sig b n x \<le> round_sig b n y"
proof -
  consider (pos) "0 < x" | (neg) "y < 0" | (mid) "x \<le> 0" "0 \<le> y" using xy by linarith
  then show ?thesis
  proof cases
    case pos
    then show ?thesis using round_sig_mono_pos[OF b n _ xy] by simp
  next
    case neg
    then have "0 < - y" "- y \<le> - x" using xy by simp_all
    from round_sig_mono_pos[OF b n this] show ?thesis by (simp add: round_sig_minus)
  next
    case mid
    have "0 \<le> round_sig b n y" using mid(2) by (rule round_sig_nonneg)
    moreover have "0 \<le> round_sig b n (- x)" using mid(1) by (intro round_sig_nonneg) simp
    ultimately show ?thesis by (simp add: round_sig_minus)
  qed
qed

lemma dec_zero [simp]: "dec 0 = 0"
  by (simp add: dec_def)

lemma dec_nonneg: "0 \<le> x \<Longrightarrow> 0 \<le> dec x"
  unfolding dec_def by (rule round_sig_nonneg)

lemma dec_mono: "x \<le> y \<Longrightarrow> dec x \<le> dec y"
  unfolding dec_def by (rule round_sig_mono) simp_all


lemma dec_fits: "fits k x \<Longrightarrow> dec x = x"
proof -
  assume f: "fits k x"
  have "x * of_nat 10 ^ k = of_int \<lfloor>x * 10 ^ k\<rfloor>" using f by (simp add: fits_def)
  moreover have "\<bar>x\<bar> * of_nat 10 ^ k < of_nat 10 ^ 28" using f by (simp add: fits_def)
  ultimately show ?thesis unfolding dec_def by (intro round_sig_exact) simp_all
qed

lemma dabs_nonneg: "0 \<le> dabs a"
  unfolding dabs_def by (rule dec_nonneg) simp

lemma dabs_zero [simp]: "dabs 0 = 0"
  by (simp add: dabs_def)

lemma dsub_self [simp]: "dsub a a = 0"
  by (simp add: dsub_def)

lemma dmul_nonneg: "0 \<le> a \<Longrightarrow> 0 \<le> b \<Longrightarrow> 0 \<le> dmul a b"
  unfolding dmul_def by (rule dec_nonneg) simp

lemma dmul_mono: "0 \<le> a \<Longrightarrow> p' \<le> p \<Longrightarrow> dmul a p' \<le> dmul a p"
  unfolding dmul_def by (rule dec_mono) (rule mult_left_mono)

lemma dmul_zero_left [simp]: "dmul 0 p = 0"
  by (simp add: dmul_def)



lemma dmul_fits: "fits k (a * b) \<Longrightarrow> dmul a b = a * b"
  by (simp add: dmul_def dec_fits)


section \<open>Derived properties of the results\<close>

lemma compute_stats_total:
  "\<exists>st. compute_stats n res = Inr st \<and>
     duplicate_rate st =
       (if n > 0
        then fl (of_nat (length (potential_duplicates res) + length (definite_duplicates res))
               / of_nat n)
        else 0)"
  by (simp add: compute_stats_def py_truediv_def)

lemma check_batch_returns:
  "\<exists>st. compute_stats (length ts) (batch_loop d p ts ex) = Inr st \<and>
        check_batch d p ts ex = Inr ((batch_loop d p ts ex)\<lparr>stats := Some st\<rparr>)"
proof -
  obtain st where "compute_stats (length ts) (batch_loop d p ts ex) = Inr st"
    using compute_stats_total by blast
  then show ?thesis by (simp add: check_batch_def)
qed

section \<open>Lemmas about the loops\<close>

lemma try_match_SomeD:
  assumes "try_match d p b k = Some m"
  shows "bank_txn m = b" and "book_txn m = k" and "match_type m \<noteq> REFERENCE"
    and "\<bar>bt_date b - bk_date k\<bar> \<le> d" and "amounts_match p (bt_amount b) (bk_amount k)"
  using assms by (auto simp: try_match_def create_match_def Let_def split: if_splits)

lemma try_match_fields:
  assumes "try_match d p b k = Some m"
  shows "date_diff_days m = \<bar>bt_date b - bk_date k\<bar>"
    and "amount_diff m = dabs (dsub (bt_amount b) (bk_amount k))"
  using assms by (auto simp: try_match_def create_match_def Let_def split: if_splits)

lemma amounts_match_gate:
  assumes "0 \<le> p" and "amounts_match p a1 a2"
  shows "dabs (dsub a1 a2) \<le> dmul (dabs a1) p"
proof (cases "a1 = a2")
  case True
  then show ?thesis using dmul_nonneg[OF dabs_nonneg assms(1), of a1] by simp
next
  case False
  with assms(2) show ?thesis by (simp add: amounts_match_def)
qed

lemma recon_inv_init: "recon_inv d p init_state"
  by (simp add: recon_inv_def init_state_def)

lemma recon_inv_commit:
  assumes "recon_inv d p s"
    and "bt_id (bank_txn m) \<notin> matched_bank_ids s"
    and "bk_id (book_txn m) \<notin> matched_book_ids s"
    and "try_match d p b k = Some m \<or> m = create_match b k REFERENCE (fl (9 / 10))"
  shows "recon_inv d p (commit m s)"
  using assms unfolding recon_inv_def commit_def by auto


lemma phase1_scan_cases:
  "phase1_scan d p b ks s = s
   \<or> (\<exists>k m. k \<in> set ks \<and> bk_id k \<notin> matched_book_ids s \<and> try_match d p b k = Some m
          \<and> match_type m = EXACT \<and> phase1_scan d p b ks s = commit m s)"
  by (induction ks) (auto split: option.splits)

lemma phase2_scan_cases:
  "phase2_scan b ks s = s
   \<or> (\<exists>k. k \<in> set ks \<and> bk_id k \<notin> matched_book_ids s
          \<and> phase2_scan b ks s = commit (create_match b k REFERENCE (fl (9 / 10))) s)"
  by (induction ks) auto

lemma in_set_map_filter:
  "y \<in> set (List.map_filter f xs) \<longleftrightarrow> (\<exists>x \<in> set xs. f x = Some y)"
  by (induction xs) (auto split: option.splits)

lemma candidates_member:
  assumes "(m, k) \<in> set (candidates d p b books s)"
  shows "k \<in> set books" and "bk_id k \<notin> matched_book_ids s" and "try_match d p b k = Some m"
  using assms
  by (auto simp: candidates_def in_set_map_filter split: if_splits option.splits)

lemma phase3_step_cases:
  "phase3_step d p books b s = s
   \<or> (\<exists>k m. k \<in> set books \<and> bt_id b \<notin> matched_bank_ids s \<and> bk_id k \<notin> matched_book_ids s
          \<and> try_match d p b k = Some m \<and> phase3_step d p books b s = commit m s)"
proof (cases "bt_id b \<in> matched_bank_ids s")
  case True
  then show ?thesis by (simp add: phase3_step_def)
next
  case False
  show ?thesis
  proof (cases "sort_by_confidence (candidates d p b books s)")
    case Nil
    with False show ?thesis by (simp add: phase3_step_def)
  next
    case (Cons c cs)
    obtain m k where c: "c = (m, k)" by (cases c)
    have "c \<in> set (sort_by_confidence (candidates d p b books s))"
      using Cons by simp
    then have mem: "(m, k) \<in> set (candidates d p b books s)"
      by (simp add: sort_by_confidence_def c)
    note cm = candidates_member[OF mem]
    have "phase3_step d p books b s = commit m s"
      using False Cons c try_match_SomeD(1,2)[OF cm(3)]
      by (simp add: phase3_step_def commit_def)
    with cm False show ?thesis by blast
  qed
qed


lemma recon_inv_phase1_step: "recon_inv d p s \<Longrightarrow> recon_inv d p (phase1_step d p books b s)"
proof -
  assume inv: "recon_inv d p s"
  show ?thesis
  proof (cases "bt_id b \<in> matched_bank_ids s")
    case True
    with inv show ?thesis by (simp add: phase1_step_def)
  next
    case False
    from phase1_scan_cases[of d p b books s] show ?thesis
    proof
      assume "phase1_scan d p b books s = s"
      with inv False show ?thesis by (simp add: phase1_step_def)
    next
      assume "\<exists>k m. k \<in> set books \<and> bk_id k \<notin> matched_book_ids s \<and> try_match d p b k = Some m
          \<and> match_type m = EXACT \<and> phase1_scan d p b books s = commit m s"
      then obtain k m where km: "bk_id k \<notin> matched_book_ids s" "try_match d p b k = Some m"
        "phase1_scan d p b books s = commit m s" by blast
      have "recon_inv d p (commit m s)"
        using inv False km try_match_SomeD(1,2)[OF km(2)]
        by (intro recon_inv_commit[where b = b and k = k]) auto
      with False km show ?thesis by (simp add: phase1_step_def)
    qed
  qed
qed

lemma recon_inv_phase2_step: "recon_inv d p s \<Longrightarrow> recon_inv d p (phase2_step books b s)"
proof -
  assume inv: "recon_inv d p s"
  show ?thesis
  proof (cases "bt_id b \<in> matched_bank_ids s \<or> \<not> truthy (bt_reference b)")
    case True
    with inv show ?thesis by (auto simp add: phase2_step_def)
  next
    case False
    from phase2_scan_cases[of b books s] show ?thesis
    proof
      assume "phase2_scan b books s = s"
      with inv False show ?thesis by (simp add: phase2_step_def)
    next
      assume "\<exists>k. k \<in> set books \<and> bk_id k \<notin> matched_book_ids s
          \<and> phase2_scan b books s = commit (create_match b k REFERENCE (fl (9 / 10))) s"
      then obtain k where km: "bk_id k \<notin> matched_book_ids s"
        "phase2_scan b books s = commit (create_match b k REFERENCE (fl (9 / 10))) s" by blast
      have "recon_inv d p (commit (create_match b k REFERENCE (fl (9 / 10))) s)"
        using inv False km
        by (intro recon_inv_commit[where b = b and k = k]) (auto simp: create_match_def)
      with False km show ?thesis by (simp add: phase2_step_def)
    qed
  qed
qed

lemma recon_inv_phase3_step: "recon_inv d p s \<Longrightarrow> recon_inv d p (phase3_step d p books b s)"
proof -
  assume inv: "recon_inv d p s"
  from phase3_step_cases[of d p books b s] show ?thesis
  proof
    assume "phase3_step d p books b s = s"
    with inv show ?thesis by simp
  next
    assume "\<exists>k m. k \<in> set books \<and> bt_id b \<notin> matched_bank_ids s \<and> bk_id k \<notin> matched_book_ids s
          \<and> try_match d p b k = Some m \<and> phase3_step d p books b s = commit m s"
    then obtain k m where km: "bt_id b \<notin> matched_bank_ids s" "bk_id k \<notin> matched_book_ids s"
      "try_match d p b k = Some m" "phase3_step d p books b s = commit m s" by blast
    have "recon_inv d p (commit m s)"
      using inv km try_match_SomeD(1,2)[OF km(3)]
      by (intro recon_inv_commit[where b = b and k = k]) auto
    with km show ?thesis by simp
  qed
qed

lemma fold_preserves:
  assumes "\<And>x s. P s \<Longrightarrow> P (f x s)" and "P s"
  shows "P (fold f xs s)"
  using assms(2) by (induction xs arbitrary: s) (auto intro: assms(1))

lemma recon_inv_run_phase3: "recon_inv d p (run_phase3 d p bank book)"
proof -
  have 1: "recon_inv d p (run_phase1 d p bank book)"
    unfolding run_phase1_def
    by (rule fold_preserves[where P = "recon_inv d p"]) (simp_all add: recon_inv_phase1_step recon_inv_init)
  have 2: "recon_inv d p (run_phase2 d p bank book)"
    unfolding run_phase2_def
    by (rule fold_preserves[where P = "recon_inv d p"]) (simp_all add: recon_inv_phase2_step 1)
  show ?thesis
    unfolding run_phase3_def
    by (rule fold_preserves[where P = "recon_inv d p"]) (simp_all add: recon_inv_phase3_step 2)
qed

lemma matched_reconcile:
  "matched (reconcile d p ent acct bank book bo bc ko kc) = rs_matched (run_phase3 d p bank book)"
  by (simp add: reconcile_def Let_def)


lemma score_text_SomeD:
  assumes "score_text t1 t2 c rs = Some m"
  shows "dm_transaction m = t1" and "matched_with m = t2"
  using assms by (auto simp: score_text_def Let_def split: if_splits prod.splits)

lemma compare_SomeD:
  assumes "compare_transactions d p t1 t2 = Some m"
  shows "dm_transaction m = t1" and "matched_with m = t2" and "pt_obj t1 \<noteq> pt_obj t2"
  using assms
  by (auto simp: compare_transactions_def Let_def split: if_splits prod.splits
           dest: score_text_SomeD)

lemma compare_self:
  "compare_transactions d p t1 t2 = Some m
     \<Longrightarrow> compare_transactions d p (dm_transaction m) (matched_with m) = Some m"
  using compare_SomeD(1,2)[of d p t1 t2 m] by simp

lemma compare_date_gate:
  assumes "compare_transactions d p t1 t2 = Some m" and "0 \<le> d"
  shows "\<bar>td_days (pt_date t1 - pt_date t2)\<bar> \<le> d"
  using assms
  by (auto simp: compare_transactions_def pt_hash_def td_days_def Let_def
           split: if_splits prod.splits)

lemma compare_amount_gate:
  assumes "compare_transactions d p t1 t2 = Some m" and "0 \<le> p"
  shows "dabs (dsub (dval (pt_amount t1)) (dval (pt_amount t2)))
           \<le> dmul (dabs (dval (pt_amount t1))) p"
proof -
  have z: "0 \<le> dmul (dabs (dval (pt_amount t1))) p"
    using dmul_nonneg[OF dabs_nonneg assms(2)] .
  show ?thesis
  proof (cases "pt_hash t1 = pt_hash t2")
    case True
    then have "pt_amount t1 = pt_amount t2" by (simp add: pt_hash_def)
    with z show ?thesis by simp
  next
    case False
    show ?thesis
    proof (cases "dabs (dsub (dval (pt_amount t1)) (dval (pt_amount t2))) = 0")
      case True
      with z show ?thesis by simp
    next
      case nz: False
      with assms(1) False show ?thesis
        by (simp add: compare_transactions_def Let_def split: if_splits prod.splits)
    qed
  qed
qed

lemma first_match_SomeD:
  "first_match d p t cs = Some m \<Longrightarrow> \<exists>c \<in> set cs. compare_transactions d p t c = Some m"
  by (induction cs) (auto split: option.splits)

lemma find_duplicate_SomeD:
  "find_duplicate idx d p t cands = Some m
     \<Longrightarrow> \<exists>c \<in> set cands. compare_transactions d p t c = Some m"
  by (auto simp: find_duplicate_def Let_def dest!: first_match_SomeD)

lemma record_match_cases:
  "record_match m res = res\<lparr>definite_duplicates := definite_duplicates res @ [m]\<rparr>
   \<or> record_match m res = res\<lparr>potential_duplicates := potential_duplicates res @ [m]\<rparr>"
  by (simp add: record_match_def)

lemma batch_step_cases:
  "batch_step idx d p ex txn res = res\<lparr>unique_transactions := unique_transactions res @ [txn]\<rparr>
   \<or> (\<exists>m c. compare_transactions d p txn c = Some m
          \<and> c \<in> set ex \<union> set (unique_transactions res)
          \<and> (batch_step idx d p ex txn res
                = res\<lparr>definite_duplicates := definite_duplicates res @ [m]\<rparr>
              \<or> batch_step idx d p ex txn res
                = res\<lparr>potential_duplicates := potential_duplicates res @ [m]\<rparr>))"
proof (cases "find_duplicate idx d p txn ex")
  case (Some m)
  then obtain c where "c \<in> set ex" "compare_transactions d p txn c = Some m"
    using find_duplicate_SomeD by blast
  moreover have "batch_step idx d p ex txn res = record_match m res"
    using Some by (simp add: batch_step_def)
  ultimately show ?thesis using record_match_cases[of m res] by auto
next
  case None
  show ?thesis
  proof (cases "find_duplicate idx d p txn (unique_transactions res)")
    case (Some m)
    then obtain c where "c \<in> set (unique_transactions res)"
      "compare_transactions d p txn c = Some m"
      using find_duplicate_SomeD by blast
    moreover have "batch_step idx d p ex txn res = record_match m res"
      using None Some by (simp add: batch_step_def)
    ultimately show ?thesis using record_match_cases[of m res] by auto
  next
    case None2: None
    with None show ?thesis by (simp add: batch_step_def)
  qed
qed

lemma batch_step_reported:
  assumes "\<forall>m \<in> set (reported res).
             compare_transactions d p (dm_transaction m) (matched_with m) = Some m"
  shows "\<forall>m \<in> set (reported (batch_step idx d p ex txn res)).
             compare_transactions d p (dm_transaction m) (matched_with m) = Some m"
  using batch_step_cases[of idx d p ex txn res] assms
  by (auto simp: reported_def dest: compare_self)

lemma batch_loop_reported:
  "\<forall>m \<in> set (reported (batch_loop d p ts ex)).
     compare_transactions d p (dm_transaction m) (matched_with m) = Some m"
  unfolding batch_loop_def
  by (rule fold_preserves[where P = "\<lambda>res. \<forall>m \<in> set (reported res).
        compare_transactions d p (dm_transaction m) (matched_with m) = Some m"])
     (simp_all add: batch_step_reported reported_def empty_result_def)

lemma check_single_SomeD:
  "check_single d p t ex = Some m \<Longrightarrow> \<exists>c \<in> set ex. compare_transactions d p t c = Some m"
  by (simp add: check_single_def first_match_SomeD)


lemma batch_step_objs:
  "mset (objs_of (batch_step idx d p ex txn res)) = add_mset (pt_obj txn) (mset (objs_of res))"
proof -
  from batch_step_cases[of idx d p ex txn res] consider
    (u) "batch_step idx d p ex txn res
           = res\<lparr>unique_transactions := unique_transactions res @ [txn]\<rparr>"
  | (d) m where "dm_transaction m = txn"
      "batch_step idx d p ex txn res
         = res\<lparr>definite_duplicates := definite_duplicates res @ [m]\<rparr>"
  | (p) m where "dm_transaction m = txn"
      "batch_step idx d p ex txn res
         = res\<lparr>potential_duplicates := potential_duplicates res @ [m]\<rparr>"
    using compare_SomeD(1) by blast
  then show ?thesis
  proof cases
    case u then show ?thesis by (simp add: objs_of_def)
  next
    case d then show ?thesis by (simp add: objs_of_def)
  next
    case p then show ?thesis by (simp add: objs_of_def)
  qed
qed

lemma batch_fold_objs:
  "mset (objs_of (fold (batch_step idx d p ex) ts res))
     = mset (objs_of res) + mset (map pt_obj ts)"
  by (induction ts arbitrary: res) (simp_all add: batch_step_objs)

lemma batch_loop_distinct:
  assumes "distinct (map pt_obj ts)"
  shows "distinct (map (\<lambda>m. pt_obj (dm_transaction m)) (reported (batch_loop d p ts ex)))"
proof -
  have "mset (objs_of (batch_loop d p ts ex)) = mset (map pt_obj ts)"
    unfolding batch_loop_def by (simp add: batch_fold_objs) (simp add: objs_of_def empty_result_def)
  then have "distinct (objs_of (batch_loop d p ts ex))"
    using assms mset_eq_imp_distinct_iff by blast
  moreover have "objs_of (batch_loop d p ts ex)
      = map (\<lambda>m. pt_obj (dm_transaction m)) (reported (batch_loop d p ts ex))
        @ map pt_obj (unique_transactions (batch_loop d p ts ex))"
    by (simp add: objs_of_def reported_def)
  ultimately show ?thesis by (simp only: distinct_append)
qed

lemma check_batch_Inr_fields:
  "\<exists>res. check_batch d p ts ex = Inr res
      \<and> unique_transactions res = unique_transactions (batch_loop d p ts ex)
      \<and> potential_duplicates res = potential_duplicates (batch_loop d p ts ex)
      \<and> definite_duplicates res = definite_duplicates (batch_loop d p ts ex)"
  using check_batch_returns[of ts d p ex] by auto

lemma matched_origin:
  assumes "m \<in> set (matched (reconcile d p ent acct bank book bo bc ko kc))"
  shows "try_match d p (bank_txn m) (book_txn m) = Some m
         \<or> m = create_match (bank_txn m) (book_txn m) REFERENCE (fl (9 / 10))"
proof -
  have "\<forall>m \<in> set (rs_matched (run_phase3 d p bank book)).
          \<exists>b k. try_match d p b k = Some m \<or> m = create_match b k REFERENCE (fl (9 / 10))"
    using recon_inv_run_phase3[of d p bank book] by (simp add: recon_inv_def)
  moreover have "m \<in> set (rs_matched (run_phase3 d p bank book))"
    using assms by (simp add: matched_reconcile)
  ultimately obtain b k where
    "try_match d p b k = Some m \<or> m = create_match b k REFERENCE (fl (9 / 10))"
    by blast
  then show ?thesis
  proof
    assume t: "try_match d p b k = Some m"
    with try_match_SomeD(1,2)[OF t] show ?thesis by simp
  next
    assume "m = create_match b k REFERENCE (fl (9 / 10))"
    then show ?thesis by (simp add: create_match_def)
  qed
qed

lemma matched_fields:
  assumes "m \<in> set (matched (reconcile d p ent acct bank book bo bc ko kc))"
  shows "date_diff_days m = \<bar>bt_date (bank_txn m) - bk_date (book_txn m)\<bar>"
    and "amount_diff m = dabs (dsub (bt_amount (bank_txn m)) (bk_amount (book_txn m)))"
    and "match_type m \<noteq> REFERENCE
           \<Longrightarrow> try_match d p (bank_txn m) (book_txn m) = Some m"
proof -
  let ?c = "create_match (bank_txn m) (book_txn m) REFERENCE (fl (9 / 10))"
  note o = matched_origin[OF assms]
  show "date_diff_days m = \<bar>bt_date (bank_txn m) - bk_date (book_txn m)\<bar>"
    using o
  proof
    assume "try_match d p (bank_txn m) (book_txn m) = Some m"
    then show ?thesis by (rule try_match_fields(1))
  next
    assume "m = ?c"
    then have "date_diff_days m = date_diff_days ?c" by (rule arg_cong)
    then show ?thesis by (simp add: create_match_def)
  qed
  show "amount_diff m = dabs (dsub (bt_amount (bank_txn m)) (bk_amount (book_txn m)))"
    using o
  proof
    assume "try_match d p (bank_txn m) (book_txn m) = Some m"
    then show ?thesis by (rule try_match_fields(2))
  next
    assume "m = ?c"
    then have "amount_diff m = amount_diff ?c" by (rule arg_cong)
    then show ?thesis by (simp add: create_match_def)
  qed
  show "try_match d p (bank_txn m) (book_txn m) = Some m" if "match_type m \<noteq> REFERENCE"
    using o
  proof
    assume "m = ?c"
    then have "match_type m = match_type ?c" by (rule arg_cong)
    with that show ?thesis by (simp add: create_match_def)
  qed
qed

section \<open>The claims\<close>



text \<open>
  Claim C10. The match rate of a result whose matched and unmatched-bank lists are both empty
  is 0.0, and the match rate of every result is a number, never a division error. The
  duplicate rate in the statistics of an empty batch is 0, and every run of the batch check
  returns a result with statistics, never a division error.
\<close>

theorem rates_guarded:
  "match_rate (r\<lparr>matched := [], unmatched_bank := []\<rparr>) = Inr 0
   \<and> (\<exists>x. match_rate r = Inr x)
   \<and> (\<exists>res st. check_batch d p [] ex = Inr res \<and> stats res = Some st \<and> duplicate_rate st = 0)
   \<and> (\<exists>res st. check_batch d p ts ex = Inr res \<and> stats res = Some st)"
proof -
  have a: "match_rate (r\<lparr>matched := [], unmatched_bank := []\<rparr>) = Inr 0"
    by (simp add: match_rate_def)
  have b: "\<exists>x. match_rate r = Inr x"
  proof (cases "length (matched r) + length (unmatched_bank r) = 0")
    case True
    then show ?thesis by (simp add: match_rate_def)
  next
    case False
    then have "(of_nat (length (matched r) + length (unmatched_bank r)) :: rat) \<noteq> 0"
      by (simp only: of_nat_eq_0_iff not_False_eq_True)
    with False show ?thesis
      by (simp add: match_rate_def py_truediv_def Let_def del: of_nat_add)
  qed
  have c: "\<exists>res st. check_batch d p [] ex = Inr res \<and> stats res = Some st
             \<and> duplicate_rate st = 0"
  proof -
    obtain st where
      "compute_stats (length ([]::ParsedTransaction list)) (batch_loop d p [] ex) = Inr st"
      "duplicate_rate st =
         (if length ([]::ParsedTransaction list) > 0
          then fl (of_nat (length (potential_duplicates (batch_loop d p [] ex))
                 + length (definite_duplicates (batch_loop d p [] ex)))
               / of_nat (length ([]::ParsedTransaction list)))
          else 0)"
      using compute_stats_total by blast
    then show ?thesis by (simp add: check_batch_def)
  qed
  have e: "\<exists>res st. check_batch d p ts ex = Inr res \<and> stats res = Some st"
    using check_batch_returns[of ts d p ex] by auto
  from a b c e show ?thesis by blast
qed

end
